theory Spec2Isabelle
  imports Main "HOL-Library.List_Lexorder"
begin

section \<open>Python strings and the built-ins the script calls\<close>

text \<open>
  A Python \<open>str\<close> is a sequence of Unicode code points; a "character" is a string of
  length one. Code points are natural numbers here, and a string is a list of them, so
  \<open>length\<close> counts what Python's \<open>len\<close> counts.
\<close>

type_synonym codepoint = nat
type_synonym pystr = "codepoint list"

text \<open>Reading an ASCII literal as a Python string.\<close>

definition ustr :: "string \<Rightarrow> pystr" where
  "ustr s = map of_char s"

text \<open>
  \<open>compare_requests.py\<close> calls two methods of \<open>str\<close> whose results come from the
  interpreter's Unicode database, which is not part of the repository: \<open>c.isupper()\<close>
  on a one-character string \<open>c\<close>, and \<open>s.lower()\<close> (on one-character strings inside
  \<open>camel_to_snake\<close>, on whole strings in the value comparison). The database is a
  parameter of the model: \<open>isupper py c\<close> is \<open>c.isupper()\<close> for the one-character string
  holding the code point \<open>c\<close>, and \<open>lower py s\<close> is \<open>s.lower()\<close>.
\<close>

record runtime =
  isupper :: "codepoint \<Rightarrow> bool"
  lower :: "pystr \<Rightarrow> pystr"

text \<open>
  What every Python interpreter does on ASCII: exactly \<open>A\<close>..\<open>Z\<close> are upper-case, and
  \<open>lower\<close> maps them to \<open>a\<close>..\<open>z\<close> and leaves every other ASCII character alone.
\<close>

definition ascii_isupper :: "codepoint \<Rightarrow> bool" where
  "ascii_isupper c = (65 \<le> c \<and> c \<le> 90)"

definition ascii_lower :: "codepoint \<Rightarrow> codepoint" where
  "ascii_lower c = (if ascii_isupper c then c + 32 else c)"

definition is_ascii :: "pystr \<Rightarrow> bool" where
  "is_ascii s = list_all (\<lambda>c. c < 128) s"

definition ascii_casing :: "runtime \<Rightarrow> bool" where
  "ascii_casing py =
     ((\<forall>c. c < 128 \<longrightarrow> isupper py c = ascii_isupper c) \<and>
      (\<forall>s. is_ascii s \<longrightarrow> lower py s = map ascii_lower s))"

text \<open>
  A fragment of the Unicode database, as CPython has it: ASCII, and four code points
  beyond it.
  \<^item> U+0130 (capital I with dot above): upper-case, \<open>lower\<close> gives the two code points
    U+0069 U+0307;
  \<^item> U+01C5 (the title-case digraph): not upper-case, \<open>lower\<close> gives U+01C6;
  \<^item> U+01C6 and U+0307: not upper-case, unchanged by \<open>lower\<close>;
  \<^item> U+2102 (double-struck capital C): upper-case, unchanged by \<open>lower\<close>.
  On strings over these code points \<open>s.lower()\<close> is the concatenation of the
  characters' lower-case forms. Every other code point is passed through as uncased,
  so \<open>ucd_fragment\<close> stands for the interpreter only on strings over the fragment.
\<close>

definition ucd_isupper :: "codepoint \<Rightarrow> bool" where
  "ucd_isupper c = (ascii_isupper c \<or> c = 304 \<or> c = 8450)"

definition ucd_lower :: "codepoint \<Rightarrow> pystr" where
  "ucd_lower c =
     (if ascii_isupper c then [c + 32]
      else if c = 304 then [105, 775]
      else if c = 453 then [454]
      else [c])"

definition ucd_fragment :: runtime where
  "ucd_fragment = \<lparr>isupper = ucd_isupper, lower = (\<lambda>s. concat (map ucd_lower s))\<rparr>"

section \<open>The case normalizer\<close>

text \<open>
  \<^verbatim>\<open>
  def camel_to_snake(name):
      result = []
      for i, c in enumerate(name):
          if c.isupper() and i > 0:
              result.append('_')
              result.append(c.lower())
          else:
              result.append(c.lower())
      return ''.join(result)
  \<close>
  The loop runs over the pairs of \<open>enumerate(name)\<close> and appends to \<open>result\<close>, a list
  of strings; \<open>''.join\<close> concatenates them. Code point 95 is the underscore.
\<close>

fun camel_to_snake_loop :: "runtime \<Rightarrow> (nat \<times> codepoint) list \<Rightarrow> pystr list \<Rightarrow> pystr list" where
  "camel_to_snake_loop py [] result = result"
| "camel_to_snake_loop py ((i, c) # rest) result =
     (if isupper py c \<and> i > 0
      then camel_to_snake_loop py rest ((result @ [[95]]) @ [lower py [c]])
      else camel_to_snake_loop py rest (result @ [lower py [c]]))"

definition camel_to_snake :: "runtime \<Rightarrow> pystr \<Rightarrow> pystr" where
  "camel_to_snake py name = concat (camel_to_snake_loop py (enumerate 0 name) [])"

text \<open>
  The contract of the normalizer in the specification's words: an underscore before every
  upper-case character that is not at index 0, and every character lower-cased.
\<close>

definition spec_normalize :: "runtime \<Rightarrow> pystr \<Rightarrow> pystr" where
  "spec_normalize py s =
     concat (map (\<lambda>i. (if isupper py (s ! i) \<and> i \<noteq> 0 then [95] else []) @ lower py [s ! i])
                 [0..<length s])"

section \<open>Values, dictionaries and the comparison loops\<close>

text \<open>
  The values of the two requests are strings and integers. \<open>str\<close> is the identity on a
  string and the decimal numeral on an integer (code point 45 is the minus sign, 48 the
  digit zero). This is \<open>str\<close> on an interpreter that puts no limit on the conversion
  of an integer to a string; \<open>str_limited\<close> below adds the limit.
\<close>

datatype pyval = PStr pystr | PInt int

fun digits :: "nat \<Rightarrow> pystr" where
  "digits n = (if n < 10 then [48 + n] else digits (n div 10) @ [48 + n mod 10])"

declare digits.simps [simp del]

fun str :: "pyval \<Rightarrow> pystr" where
  "str (PStr s) = s"
| "str (PInt i) = (if i < 0 then 45 # digits (nat (- i)) else digits (nat i))"

text \<open>
  A \<open>dict\<close> keeps its entries in insertion order, so it is a list of key-value pairs;
  \<open>d[k]\<close> raises \<open>KeyError\<close> when the key is absent. The keys of a \<open>dict\<close> are
  distinct; nothing below needs that, so the statements are about all such lists.
  \<open>ValueError\<close> is what \<open>str\<close> raises for an integer beyond the digit limit.
\<close>

type_synonym pydict = "(pystr \<times> pyval) list"

datatype error = KeyError pystr | ValueError

definition keys :: "pydict \<Rightarrow> pystr list" where
  "keys d = map fst d"

definition contains :: "pystr \<Rightarrow> pydict \<Rightarrow> bool" where
  "contains k d = (k \<in> set (keys d))"

definition getitem :: "pydict \<Rightarrow> pystr \<Rightarrow> error + pyval" where
  "getitem d k = (case map_of d k of None \<Rightarrow> Inl (KeyError k) | Some v \<Rightarrow> Inr v)"

text \<open>
  Section 2 of the script walks the sorted keys of \<open>first\<close> and prints, for each, a tick
  or a cross and the key with its snake-case form:
  \<^verbatim>\<open>
  second_keys = set(second.keys())
  for fk in sorted(first.keys()):
      snake = camel_to_snake(fk)
      has_in_second = snake in second_keys
      mark = tick if has_in_second else cross
      print(f"   {mark} {fk} -> {snake}")
  \<close>
  The model returns the printed lines as triples. Python orders strings
  lexicographically by code point, which is the order of lists of naturals.
\<close>

fun key_report_loop :: "runtime \<Rightarrow> pystr set \<Rightarrow> pystr list \<Rightarrow> (bool \<times> pystr \<times> pystr) list" where
  "key_report_loop py second_keys [] = []"
| "key_report_loop py second_keys (fk # rest) =
     (let snake = camel_to_snake py fk;
          has_in_second = (snake \<in> second_keys)
      in (has_in_second, fk, snake) # key_report_loop py second_keys rest)"

definition key_report :: "runtime \<Rightarrow> pydict \<Rightarrow> pydict \<Rightarrow> (bool \<times> pystr \<times> pystr) list" where
  "key_report py first second = key_report_loop py (set (keys second)) (sort (keys first))"

text \<open>
  Section 3:
  \<^verbatim>\<open>
  differences = []
  for first_key in first.keys():
      snake_key = camel_to_snake(first_key)
      if snake_key in second:
          first_val = str(first[first_key]).lower()
          second_val = str(second[snake_key]).lower()
          if first_val != second_val:
              differences.append((first_key, snake_key, first[first_key], second[snake_key]))
  \<close>
\<close>

type_synonym difference = "pystr \<times> pystr \<times> pyval \<times> pyval"

fun differences_loop ::
  "runtime \<Rightarrow> pydict \<Rightarrow> pydict \<Rightarrow> pystr list \<Rightarrow> difference list \<Rightarrow> error + difference list" where
  "differences_loop py first second [] differences = Inr differences"
| "differences_loop py first second (first_key # rest) differences =
     (let snake_key = camel_to_snake py first_key in
      if contains snake_key second then
        (case getitem first first_key of
           Inl e \<Rightarrow> Inl e
         | Inr fv \<Rightarrow>
             (case getitem second snake_key of
                Inl e \<Rightarrow> Inl e
              | Inr sv \<Rightarrow>
                  (let first_val = lower py (str fv);
                       second_val = lower py (str sv)
                   in if first_val \<noteq> second_val
                      then differences_loop py first second rest
                             (differences @ [(first_key, snake_key, fv, sv)])
                      else differences_loop py first second rest differences)))
      else differences_loop py first second rest differences)"

definition differences :: "runtime \<Rightarrow> pydict \<Rightarrow> pydict \<Rightarrow> error + difference list" where
  "differences py first second = differences_loop py first second (keys first) []"

text \<open>
  Section 5:
  \<^verbatim>\<open>
  same_fields = []
  for first_key in first.keys():
      snake_key = camel_to_snake(first_key)
      if snake_key in second:
          first_val = str(first[first_key]).lower()
          second_val = str(second[snake_key]).lower()
          if first_val == second_val:
              same_fields.append(first_key)
  \<close>
\<close>

fun same_fields_loop ::
  "runtime \<Rightarrow> pydict \<Rightarrow> pydict \<Rightarrow> pystr list \<Rightarrow> pystr list \<Rightarrow> error + pystr list" where
  "same_fields_loop py first second [] same_fields = Inr same_fields"
| "same_fields_loop py first second (first_key # rest) same_fields =
     (let snake_key = camel_to_snake py first_key in
      if contains snake_key second then
        (case getitem first first_key of
           Inl e \<Rightarrow> Inl e
         | Inr fv \<Rightarrow>
             (case getitem second snake_key of
                Inl e \<Rightarrow> Inl e
              | Inr sv \<Rightarrow>
                  (let first_val = lower py (str fv);
                       second_val = lower py (str sv)
                   in if first_val = second_val
                      then same_fields_loop py first second rest (same_fields @ [first_key])
                      else same_fields_loop py first second rest same_fields)))
      else same_fields_loop py first second rest same_fields)"

definition same_fields :: "runtime \<Rightarrow> pydict \<Rightarrow> pydict \<Rightarrow> error + pystr list" where
  "same_fields py first second = same_fields_loop py first second (keys first) []"

text \<open>
  The three outcome sets of the specification, read off the three loops: the keys printed
  with a cross, the first components of \<open>differences\<close>, and \<open>same_fields\<close>.
\<close>

definition unmatched :: "runtime \<Rightarrow> pydict \<Rightarrow> pydict \<Rightarrow> pystr list" where
  "unmatched py first second =
     map (\<lambda>(has_in_second, fk, snake). fk)
         (filter (\<lambda>(has_in_second, fk, snake). \<not> has_in_second) (key_report py first second))"

definition mismatched_keys :: "difference list \<Rightarrow> pystr list" where
  "mismatched_keys ds = map (\<lambda>(first_key, snake_key, fv, sv). first_key) ds"

section \<open>The comparison loops under the limit on integer string conversion\<close>

text \<open>
  CPython limits the number of digits that \<open>str\<close> will produce for an integer
  (\<open>sys.get_int_max_str_digits()\<close>: 4300 by default since version 3.11; 0 switches the
  limit off, and the interpreter accepts no other value below 640). Beyond the limit
  \<open>str\<close> raises \<open>ValueError\<close>. The sign is not counted.
\<close>

definition str_limited :: "nat \<Rightarrow> pyval \<Rightarrow> error + pystr" where
  "str_limited max_str_digits v =
     (case v of
        PStr s \<Rightarrow> Inr s
      | PInt i \<Rightarrow>
          if 0 < max_str_digits \<and> max_str_digits < length (digits (nat \<bar>i\<bar>))
          then Inl ValueError
          else Inr (str (PInt i)))"

text \<open>
  Sections 3 and 5 of the script with this \<open>str\<close>: each of the two calls of \<open>str\<close> can
  end the loop. \<open>str(first[first_key])\<close> is evaluated before \<open>second[snake_key]\<close>.
\<close>

fun differences_limited_loop ::
  "runtime \<Rightarrow> nat \<Rightarrow> pydict \<Rightarrow> pydict \<Rightarrow> pystr list \<Rightarrow> difference list
     \<Rightarrow> error + difference list" where
  "differences_limited_loop py m first second [] acc = Inr acc"
| "differences_limited_loop py m first second (first_key # rest) acc =
     (let snake_key = camel_to_snake py first_key in
      if contains snake_key second then
        (case getitem first first_key of
           Inl e \<Rightarrow> Inl e
         | Inr fv \<Rightarrow>
             (case str_limited m fv of
                Inl e \<Rightarrow> Inl e
              | Inr fs \<Rightarrow>
                  (case getitem second snake_key of
                     Inl e \<Rightarrow> Inl e
                   | Inr sv \<Rightarrow>
                       (case str_limited m sv of
                          Inl e \<Rightarrow> Inl e
                        | Inr ss \<Rightarrow>
                            (let first_val = lower py fs;
                                 second_val = lower py ss
                             in if first_val \<noteq> second_val
                                then differences_limited_loop py m first second rest
                                       (acc @ [(first_key, snake_key, fv, sv)])
                                else differences_limited_loop py m first second rest acc)))))
      else differences_limited_loop py m first second rest acc)"

definition differences_limited ::
  "runtime \<Rightarrow> nat \<Rightarrow> pydict \<Rightarrow> pydict \<Rightarrow> error + difference list" where
  "differences_limited py m first second =
     differences_limited_loop py m first second (keys first) []"

fun same_fields_limited_loop ::
  "runtime \<Rightarrow> nat \<Rightarrow> pydict \<Rightarrow> pydict \<Rightarrow> pystr list \<Rightarrow> pystr list
     \<Rightarrow> error + pystr list" where
  "same_fields_limited_loop py m first second [] acc = Inr acc"
| "same_fields_limited_loop py m first second (first_key # rest) acc =
     (let snake_key = camel_to_snake py first_key in
      if contains snake_key second then
        (case getitem first first_key of
           Inl e \<Rightarrow> Inl e
         | Inr fv \<Rightarrow>
             (case str_limited m fv of
                Inl e \<Rightarrow> Inl e
              | Inr fs \<Rightarrow>
                  (case getitem second snake_key of
                     Inl e \<Rightarrow> Inl e
                   | Inr sv \<Rightarrow>
                       (case str_limited m sv of
                          Inl e \<Rightarrow> Inl e
                        | Inr ss \<Rightarrow>
                            (let first_val = lower py fs;
                                 second_val = lower py ss
                             in if first_val = second_val
                                then same_fields_limited_loop py m first second rest
                                       (acc @ [first_key])
                                else same_fields_limited_loop py m first second rest acc)))))
      else same_fields_limited_loop py m first second rest acc)"

definition same_fields_limited ::
  "runtime \<Rightarrow> nat \<Rightarrow> pydict \<Rightarrow> pydict \<Rightarrow> error + pystr list" where
  "same_fields_limited py m first second =
     same_fields_limited_loop py m first second (keys first) []"

text \<open>
  A value is within the limit when it is a string, or an integer with at most
  \<open>max_str_digits\<close> digits, or the limit is off; a mapping is, when all its values are.
\<close>

definition fits_limit :: "nat \<Rightarrow> pyval \<Rightarrow> bool" where
  "fits_limit max_str_digits v =
     (case v of
        PStr s \<Rightarrow> True
      | PInt i \<Rightarrow> max_str_digits = 0 \<or> length (digits (nat \<bar>i\<bar>)) \<le> max_str_digits)"

definition within_limit :: "nat \<Rightarrow> pydict \<Rightarrow> bool" where
  "within_limit max_str_digits d = list_all (\<lambda>(k, v). fits_limit max_str_digits v) d"

section \<open>Predicates on strings used in the statements\<close>

text \<open>
  What one iteration of the loop of \<open>camel_to_snake\<close> contributes to the output for the
  character \<open>c\<close> at index \<open>i\<close>.
\<close>

definition piece :: "runtime \<Rightarrow> nat \<Rightarrow> codepoint \<Rightarrow> pystr" where
  "piece py i c = (if isupper py c \<and> i > 0 then [95] else []) @ lower py [c]"

text \<open>No character of the string is upper-case.\<close>

definition no_upper :: "runtime \<Rightarrow> pystr \<Rightarrow> bool" where
  "no_upper py s = list_all (\<lambda>c. \<not> isupper py c) s"

text \<open>Every character of the string is left as it is by \<open>lower\<close>.\<close>

definition lower_fixed :: "runtime \<Rightarrow> pystr \<Rightarrow> bool" where
  "lower_fixed py s = list_all (\<lambda>c. lower py [c] = [c]) s"

text \<open>Every character of the string has a lower-case form of exactly one character.\<close>

definition single_lower :: "runtime \<Rightarrow> pystr \<Rightarrow> bool" where
  "single_lower py s = list_all (\<lambda>c. length (lower py [c]) = 1) s"

text \<open>
  The lower-case form of every character of the string consists of characters that are
  not upper-case and that \<open>lower\<close> leaves as they are.
\<close>

definition lower_settled :: "runtime \<Rightarrow> pystr \<Rightarrow> bool" where
  "lower_settled py s = list_all (\<lambda>c. no_upper py (lower py [c]) \<and> lower_fixed py (lower py [c])) s"

text \<open>
  A camelCase identifier in the sense of the specification: non-empty runs of characters
  that are not upper-case, separated by single upper-case characters. It starts and
  ends with a run.
\<close>

fun camel_case :: "runtime \<Rightarrow> pystr \<Rightarrow> bool" where
  "camel_case py [] = False"
| "camel_case py [c] = (\<not> isupper py c)"
| "camel_case py (c # d # s) =
     (\<not> isupper py c \<and> (if isupper py d then camel_case py s else camel_case py (d # s)))"

text \<open>
  What an iteration contributes at any index after the first: the index test of the loop
  is then true, so only the character decides.
\<close>

definition tail_piece :: "runtime \<Rightarrow> codepoint \<Rightarrow> pystr" where
  "tail_piece py c = (if isupper py c then [95] else []) @ lower py [c]"

section \<open>Notions used to describe what the comparison loops return\<close>

text \<open>
  The record that section 3 appends for a key of \<open>first\<close> whose snake-case form is a key
  of \<open>second\<close>, and the test both loops make on the two values.
\<close>

definition difference_of :: "runtime \<Rightarrow> pydict \<Rightarrow> pydict \<Rightarrow> pystr \<Rightarrow> difference" where
  "difference_of py A B k =
     (k, camel_to_snake py k, the (map_of A k), the (map_of B (camel_to_snake py k)))"

definition values_agree :: "runtime \<Rightarrow> pydict \<Rightarrow> pydict \<Rightarrow> pystr \<Rightarrow> bool" where
  "values_agree py A B k =
     (lower py (str (the (map_of A k))) = lower py (str (the (map_of B (camel_to_snake py k)))))"

section \<open>The normalizer: what the loop computes\<close>

lemma camel_to_snake_loop_concat:
  "concat (camel_to_snake_loop py xs result) =
     concat result @ concat (map (\<lambda>(i, c). piece py i c) xs)"
  by (induction xs arbitrary: result) (auto simp: piece_def)

lemma camel_to_snake_loop_length:
  "length (camel_to_snake_loop py xs acc) =
     length acc + length xs + length (filter (\<lambda>(i, c). isupper py c \<and> i > 0) xs)"
  by (induction py xs acc rule: camel_to_snake_loop.induct) simp_all

lemma enumerate_nth: "enumerate 0 s = map (\<lambda>i. (i, s ! i)) [0..<length s]"
proof -
  have "enumerate 0 (map ((!) s) [0..<length s]) = map (\<lambda>i. (i, s ! i)) [0..<length s]"
    by (rule enumerate_map_upt)
  then show ?thesis by (simp add: map_nth)
qed

lemma map_nth_upt: "map (\<lambda>i. f (s ! i)) [0..<length s] = map f s"
  by (simp add: map_nth flip: map_map [unfolded o_def])

lemma camel_to_snake_pieces:
  "camel_to_snake py s = concat (map (\<lambda>i. piece py i (s ! i)) [0..<length s])"
  by (simp add: camel_to_snake_def camel_to_snake_loop_concat enumerate_nth o_def)

lemma camel_to_snake_Nil: "camel_to_snake py [] = []"
  by (simp add: camel_to_snake_def)

text \<open>The first character is only lower-cased; every later one contributes its \<open>tail_piece\<close>.\<close>

lemma camel_to_snake_Cons:
  "camel_to_snake py (c # s) = lower py [c] @ concat (map (tail_piece py) s)"
proof -
  have "[0..<length (c # s)] = 0 # map Suc [0..<length s]"
    by (simp add: upt_conv_Cons map_Suc_upt del: upt_Suc)
  then have "camel_to_snake py (c # s) =
               piece py 0 c @ concat (map (\<lambda>i. piece py (Suc i) (s ! i)) [0..<length s])"
    by (simp add: camel_to_snake_pieces o_def del: upt_Suc)
  also have "map (\<lambda>i. piece py (Suc i) (s ! i)) [0..<length s] =
               map (\<lambda>i. tail_piece py (s ! i)) [0..<length s]"
    by (simp add: piece_def tail_piece_def)
  also have "\<dots> = map (tail_piece py) s"
    by (rule map_nth_upt)
  finally show ?thesis by (simp add: piece_def)
qed

lemma camel_to_snake_append_Cons:
  "camel_to_snake py (p @ d # q) =
     camel_to_snake py p @ piece py (length p) d @ concat (map (tail_piece py) q)"
  by (cases p) (simp_all add: camel_to_snake_Nil camel_to_snake_Cons piece_def tail_piece_def)

lemma set_camel_to_snake:
  "set (camel_to_snake py s) \<subseteq> insert 95 (\<Union>c\<in>set s. set (lower py [c]))"
  by (cases s) (auto simp: camel_to_snake_Nil camel_to_snake_Cons tail_piece_def split: if_splits)

lemma tail_piece_no_upper: "\<not> isupper py c \<Longrightarrow> tail_piece py c = lower py [c]"
  by (simp add: tail_piece_def)

lemma snake_fixed:
  assumes "no_upper py x" and "lower_fixed py x"
  shows "camel_to_snake py x = x"
proof -
  have "map (\<lambda>i. piece py i (x ! i)) [0..<length x] = map (\<lambda>i. [x ! i]) [0..<length x]"
    using assms by (auto simp: no_upper_def lower_fixed_def list_all_length piece_def)
  also have "\<dots> = map (\<lambda>c. [c]) x"
    by (rule map_nth_upt)
  finally show ?thesis by (simp add: camel_to_snake_pieces)
qed

lemma camel_case_pieces:
  assumes "camel_case py s"
  shows "camel_to_snake py s = concat (map (tail_piece py) s)"
proof (cases s)
  case Nil
  with assms show ?thesis by simp
next
  case (Cons c t)
  with assms have "\<not> isupper py c" by (cases t) auto
  then show ?thesis by (simp add: Cons camel_to_snake_Cons tail_piece_no_upper)
qed

lemma length_pieces:
  "single_lower py s \<Longrightarrow>
     length (concat (map (tail_piece py) s)) = length s + length (filter (isupper py) s)"
  by (induction s) (auto simp: single_lower_def tail_piece_def)

section \<open>Runtimes that treat ASCII as Python does\<close>

lemma ascii_isupper_py: "ascii_casing py \<Longrightarrow> c < 128 \<Longrightarrow> isupper py c = ascii_isupper c"
  by (simp add: ascii_casing_def)

lemma ascii_lower_py: "ascii_casing py \<Longrightarrow> is_ascii s \<Longrightarrow> lower py s = map ascii_lower s"
  by (simp add: ascii_casing_def)

lemma ascii_underscore:
  assumes "ascii_casing py"
  shows "\<not> isupper py 95" and "lower py [95] = [95]"
  using ascii_isupper_py [OF assms, of 95] ascii_lower_py [OF assms, of "[95]"]
  by (simp_all add: ascii_isupper_def ascii_lower_def is_ascii_def)

lemma ascii_lower_char: "ascii_casing py \<Longrightarrow> c < 128 \<Longrightarrow> lower py [c] = [ascii_lower c]"
  using ascii_lower_py [of py "[c]"] by (simp add: is_ascii_def)

lemma ascii_lower_bound: "c < 128 \<Longrightarrow> ascii_lower c < 128"
  by (auto simp: ascii_lower_def ascii_isupper_def)

lemma ascii_lower_not_upper: "\<not> ascii_isupper (ascii_lower c)"
  by (auto simp: ascii_lower_def ascii_isupper_def)

lemma ascii_lower_idem: "ascii_lower (ascii_lower c) = ascii_lower c"
  using ascii_lower_not_upper [of c] by (simp add: ascii_lower_def [of "ascii_lower c"])

lemma ascii_single_lower: "ascii_casing py \<Longrightarrow> is_ascii s \<Longrightarrow> single_lower py s"
  by (simp add: is_ascii_def single_lower_def list_all_iff ascii_lower_char)

lemma ascii_lower_fixed:
  "ascii_casing py \<Longrightarrow> is_ascii s \<Longrightarrow> no_upper py s \<Longrightarrow> lower_fixed py s"
  by (simp add: is_ascii_def no_upper_def lower_fixed_def list_all_iff ascii_lower_char
      ascii_isupper_py ascii_lower_def)

lemma ascii_lower_settled:
  assumes a: "ascii_casing py" and s: "is_ascii s"
  shows "lower_settled py s"
proof -
  have "no_upper py (lower py [c]) \<and> lower_fixed py (lower py [c])" if "c \<in> set s" for c
  proof -
    from that s have c: "c < 128" by (simp add: is_ascii_def list_all_iff)
    then have l: "lower py [c] = [ascii_lower c]" by (rule ascii_lower_char [OF a])
    from c have b: "ascii_lower c < 128" by (rule ascii_lower_bound)
    show ?thesis
      by (simp add: l no_upper_def lower_fixed_def ascii_isupper_py [OF a b]
          ascii_lower_char [OF a b] ascii_lower_not_upper ascii_lower_idem)
  qed
  then show ?thesis by (simp add: lower_settled_def list_all_iff)
qed

lemma ucd_fragment_ascii: "ascii_casing ucd_fragment"
  unfolding ascii_casing_def ucd_fragment_def
proof (intro conjI allI impI)
  fix c :: nat
  assume "c < 128"
  then show "isupper \<lparr>isupper = ucd_isupper, lower = \<lambda>s. concat (map ucd_lower s)\<rparr> c
               = ascii_isupper c"
    by (auto simp: ucd_isupper_def)
next
  fix s
  assume "is_ascii s"
  then show "lower \<lparr>isupper = ucd_isupper, lower = \<lambda>s. concat (map ucd_lower s)\<rparr> s
               = map ascii_lower s"
    by (induction s) (auto simp: is_ascii_def ucd_lower_def ascii_lower_def)
qed

text \<open>Rewrite rules for evaluating at a concrete input.\<close>

lemmas ucd_simps =
  ucd_fragment_def ucd_isupper_def ucd_lower_def ascii_isupper_def ustr_def

lemmas ascii_eval =
  ustr_def camel_to_snake_Cons tail_piece_def is_ascii_def ascii_isupper_def ascii_lower_def

lemmas dict_eval =
  differences_def same_fields_def unmatched_def key_report_def keys_def
  contains_def getitem_def Let_def

section \<open>The comparison loops: what they return\<close>


lemma getitem_key: "k \<in> set (keys d) \<Longrightarrow> getitem d k = Inr (the (map_of d k))"
  by (auto simp: getitem_def keys_def map_of_eq_None_iff split: option.splits)

text \<open>
  Neither subscript can raise: \<open>first_key\<close> comes from \<open>first.keys()\<close>, and
  \<open>second[snake_key]\<close> is behind the test \<open>snake_key in second\<close>.
\<close>

lemma differences_loop_filter:
  "set ks \<subseteq> set (keys A) \<Longrightarrow>
     differences_loop py A B ks acc =
       Inr (acc @ map (difference_of py A B)
                      (filter (\<lambda>k. contains (camel_to_snake py k) B \<and> \<not> values_agree py A B k) ks))"
proof (induction ks arbitrary: acc)
  case Nil
  then show ?case by simp
next
  case (Cons k ks)
  then have k: "getitem A k = Inr (the (map_of A k))" and ks: "set ks \<subseteq> set (keys A)"
    by (simp_all add: getitem_key)
  show ?case
  proof (cases "contains (camel_to_snake py k) B")
    case True
    then have "getitem B (camel_to_snake py k) = Inr (the (map_of B (camel_to_snake py k)))"
      by (simp add: contains_def getitem_key)
    with True k show ?thesis
      by (simp add: Cons.IH [OF ks] Let_def values_agree_def difference_of_def)
  next
    case False
    then show ?thesis by (simp add: Cons.IH [OF ks])
  qed
qed

lemma same_fields_loop_filter:
  "set ks \<subseteq> set (keys A) \<Longrightarrow>
     same_fields_loop py A B ks acc =
       Inr (acc @ filter (\<lambda>k. contains (camel_to_snake py k) B \<and> values_agree py A B k) ks)"
proof (induction ks arbitrary: acc)
  case Nil
  then show ?case by simp
next
  case (Cons k ks)
  then have k: "getitem A k = Inr (the (map_of A k))" and ks: "set ks \<subseteq> set (keys A)"
    by (simp_all add: getitem_key)
  show ?case
  proof (cases "contains (camel_to_snake py k) B")
    case True
    then have "getitem B (camel_to_snake py k) = Inr (the (map_of B (camel_to_snake py k)))"
      by (simp add: contains_def getitem_key)
    with True k show ?thesis
      by (simp add: Cons.IH [OF ks] Let_def values_agree_def)
  next
    case False
    then show ?thesis by (simp add: Cons.IH [OF ks])
  qed
qed

lemma key_report_loop_map:
  "key_report_loop py K ks = map (\<lambda>k. (camel_to_snake py k \<in> K, k, camel_to_snake py k)) ks"
  by (induction ks) (simp_all add: Let_def)

lemma unmatched_filter:
  "unmatched py A B = filter (\<lambda>k. \<not> contains (camel_to_snake py k) B) (sort (keys A))"
  by (simp add: unmatched_def key_report_def key_report_loop_map filter_map o_def contains_def)



lemma mismatched_keys_difference_of:
  "mismatched_keys (map (difference_of py A B) ks) = ks"
  by (simp add: mismatched_keys_def difference_of_def o_def)

section \<open>The limit on integer string conversion\<close>

lemma digits_longer: "10 ^ k \<le> n \<Longrightarrow> k < length (digits n)"
proof (induction k arbitrary: n)
  case 0
  then show ?case by (subst digits.simps) simp
next
  case (Suc k)
  then have n: "\<not> n < 10" and "10 ^ k \<le> n div 10"
    by (auto simp: not_less intro: order_trans [of 10 "10 * 10 ^ k"])
  then have "k < length (digits (n div 10))"
    using Suc.IH by simp
  with n show ?case by (subst digits.simps) simp
qed

lemma str_limited_fits: "fits_limit m v \<Longrightarrow> str_limited m v = Inr (str v)"
  by (cases v) (auto simp: fits_limit_def str_limited_def)

lemma str_limited_raises:
  "0 < m \<Longrightarrow> 10 ^ m \<le> nat \<bar>i\<bar> \<Longrightarrow> str_limited m (PInt i) = Inl ValueError"
  using digits_longer [of m "nat \<bar>i\<bar>"] by (simp add: str_limited_def)

lemma ten_power_4300: "(10::nat) ^ 4300 \<le> nat \<bar>10 ^ 4300 :: int\<bar>"
  by (simp only: power_abs abs_numeral nat_power_eq zero_le_numeral nat_numeral order_refl)

lemma str_limited_default_raises: "str_limited 4300 (PInt (10 ^ 4300)) = Inl ValueError"
  by (rule str_limited_raises [OF _ ten_power_4300]) (simp only: zero_less_numeral)

lemma getitem_fits:
  assumes w: "within_limit m d" and g: "getitem d k = Inr v"
  shows "str_limited m v = Inr (str v)"
proof -
  from g have "map_of d k = Some v"
    by (simp add: getitem_def split: option.splits)
  then have "(k, v) \<in> set d"
    by (rule map_of_SomeD)
  with w have "fits_limit m v"
    by (auto simp: within_limit_def list_all_iff)
  then show ?thesis
    by (rule str_limited_fits)
qed

text \<open>Within the limit, the loops with \<open>str_limited\<close> are the loops with \<open>str\<close>.\<close>

lemma differences_limited_loop_eq:
  assumes A: "within_limit m A" and B: "within_limit m B"
  shows "differences_limited_loop py m A B ks acc = differences_loop py A B ks acc"
proof (induction ks arbitrary: acc)
  case Nil
  show ?case by simp
next
  case (Cons k ks)
  show ?case
    by (simp add: Cons.IH Let_def getitem_fits [OF A] getitem_fits [OF B] split: sum.splits)
qed

lemma same_fields_limited_loop_eq:
  assumes A: "within_limit m A" and B: "within_limit m B"
  shows "same_fields_limited_loop py m A B ks acc = same_fields_loop py A B ks acc"
proof (induction ks arbitrary: acc)
  case Nil
  show ?case by simp
next
  case (Cons k ks)
  show ?case
    by (simp add: Cons.IH Let_def getitem_fits [OF A] getitem_fits [OF B] split: sum.splits)
qed

lemma within_limit_off: "within_limit 0 d"
  by (auto simp: within_limit_def fits_limit_def list_all_iff split: pyval.splits)

section \<open>C2: the normalizer meets its contract\<close>

text \<open>
  C2. For every string \<open>s\<close>, \<open>camel_to_snake(s)\<close> is the string obtained by inserting an
  underscore before every upper-case character of \<open>s\<close> that is not at index 0 and
  lower-casing every character of \<open>s\<close>. The function is total: it is defined by
  structural recursion over \<open>enumerate(name)\<close>, for every runtime and every string.
\<close>

theorem camel_to_snake_meets_contract:
  "camel_to_snake py s = spec_normalize py s"
  unfolding camel_to_snake_pieces spec_normalize_def piece_def
  by (rule arg_cong [where f = concat]) auto

theorem camel_to_snake_meets_contract_witness:
  "camel_to_snake ucd_fragment (ustr ''tokenId'') = spec_normalize ucd_fragment (ustr ''tokenId'')
   \<and> spec_normalize ucd_fragment (ustr ''tokenId'') = ustr ''token_id''"
  using camel_to_snake_meets_contract [of ucd_fragment "ustr ''tokenId''"]
  by (simp add: spec_normalize_def ucd_simps)

section \<open>C1: the three outcome sets partition the keys of the first mapping\<close>



section \<open>C3: how a key with a counterpart is classified\<close>



section \<open>C4: strings that the normalizer leaves unchanged\<close>

text \<open>
  C4. Every string that is already snake_case is returned unchanged: when the string
  contains no upper-case character and all its characters are in lower-case form, that
  is, left as they are by \<open>lower\<close>, then \<open>camel_to_snake(x) == x\<close>. Every ASCII string
  without an upper-case character is such a string.
\<close>

theorem snake_case_unchanged:
  "(no_upper py x \<and> lower_fixed py x \<longrightarrow> camel_to_snake py x = x)
   \<and> (ascii_casing py \<and> is_ascii x \<and> no_upper py x \<longrightarrow> lower_fixed py x)"
  by (simp add: snake_fixed ascii_lower_fixed)

theorem snake_case_unchanged_witness:
  "ascii_casing ucd_fragment
   \<and> is_ascii (ustr ''token_id'')
   \<and> no_upper ucd_fragment (ustr ''token_id'')
   \<and> lower_fixed ucd_fragment (ustr ''token_id'')
   \<and> camel_to_snake ucd_fragment (ustr ''token_id'') = ustr ''token_id''"
  using snake_case_unchanged [of ucd_fragment "ustr ''token_id''"] ucd_fragment_ascii
  by (simp add: no_upper_def is_ascii_def ucd_simps)

section \<open>C5: camelCase identifiers\<close>

text \<open>
  C5 as stated: for a camelCase identifier the output is as long as the input plus the
  number of its upper-case letters. U+0130 is an upper-case letter whose lower-case form
  has two code points: the identifier \<open>a\<close>, U+0130, \<open>b\<close> has length 3 and one upper-case
  letter, and its snake-case form has length 5.
\<close>

theorem camel_case_length_differs:
  "camel_case ucd_fragment [97, 304, 98]
   \<and> camel_to_snake ucd_fragment [97, 304, 98] = [97, 95, 105, 775, 98]
   \<and> length (camel_to_snake ucd_fragment [97, 304, 98]) = 5
   \<and> length [97, 304, 98 :: nat] + length (filter (isupper ucd_fragment) [97, 304, 98]) = 4"
  by (simp add: camel_to_snake_def ucd_simps)

text \<open>
  C5, amended. For every camelCase identifier (runs of characters that are not
  upper-case, separated by single upper-case letters, starting with such a run)
  \<open>camel_to_snake\<close> inserts exactly one underscore per upper-case letter, in front of it,
  and lower-cases every character. When the lower-case form of every character is one
  character long, as it is for every ASCII identifier, the output length is the input
  length plus the number of upper-case letters. In particular \<open>contractAddress\<close> becomes
  \<open>contract_address\<close> and \<open>tradingMethod\<close> becomes \<open>trading_method\<close>.
\<close>

theorem camel_case_one_underscore_per_upper:
  "(camel_case py s \<longrightarrow>
      camel_to_snake py s =
        concat (map (\<lambda>c. (if isupper py c then [95] else []) @ lower py [c]) s)
      \<and> (single_lower py s \<longrightarrow>
           length (camel_to_snake py s) = length s + length (filter (isupper py) s)))
   \<and> (ascii_casing py \<longrightarrow>
        (is_ascii s \<longrightarrow> single_lower py s)
        \<and> camel_to_snake py (ustr ''contractAddress'') = ustr ''contract_address''
        \<and> camel_to_snake py (ustr ''tradingMethod'') = ustr ''trading_method'')"
proof (intro conjI impI)
  assume cc: "camel_case py s"
  have "tail_piece py = (\<lambda>c. (if isupper py c then [95] else []) @ lower py [c])"
    by (rule ext) (simp add: tail_piece_def)
  with camel_case_pieces [OF cc]
  show "camel_to_snake py s =
          concat (map (\<lambda>c. (if isupper py c then [95] else []) @ lower py [c]) s)"
    by simp
  assume "single_lower py s"
  then show "length (camel_to_snake py s) = length s + length (filter (isupper py) s)"
    by (simp add: camel_case_pieces [OF cc] length_pieces)
next
  assume a: "ascii_casing py"
  show "camel_to_snake py (ustr ''contractAddress'') = ustr ''contract_address''"
    by (simp add: ascii_eval ascii_isupper_py [OF a] ascii_lower_py [OF a])
  show "camel_to_snake py (ustr ''tradingMethod'') = ustr ''trading_method''"
    by (simp add: ascii_eval ascii_isupper_py [OF a] ascii_lower_py [OF a])
  assume "is_ascii s"
  with a show "single_lower py s"
    by (rule ascii_single_lower)
qed

theorem camel_case_one_underscore_per_upper_witness:
  "camel_case ucd_fragment (ustr ''tokenId'')
   \<and> single_lower ucd_fragment (ustr ''tokenId'')
   \<and> is_ascii (ustr ''tokenId'')
   \<and> ascii_casing ucd_fragment
   \<and> camel_to_snake ucd_fragment (ustr ''tokenId'') = ustr ''token_id''
   \<and> length (camel_to_snake ucd_fragment (ustr ''tokenId'')) = 8
   \<and> length (ustr ''tokenId'') + length (filter (isupper ucd_fragment) (ustr ''tokenId'')) = 8
   \<and> camel_to_snake ucd_fragment (ustr ''contractAddress'') = ustr ''contract_address''"
  using camel_case_one_underscore_per_upper [of ucd_fragment "ustr ''tokenId''"]
    ucd_fragment_ascii
  by (simp add: single_lower_def is_ascii_def ucd_simps)

section \<open>C8: upper-case characters in the output, and idempotence\<close>

text \<open>
  C8 as stated: the output never contains an upper-case character, and normalizing twice
  is normalizing once. U+2102 is upper-case and \<open>lower\<close> leaves it as it is: the string
  \<open>a\<close>, U+2102 becomes \<open>a\<close>, underscore, U+2102, which still contains the upper-case
  character, and normalizing that again inserts a second underscore.
\<close>

theorem upper_case_survives:
  "camel_to_snake ucd_fragment [97, 8450] = [97, 95, 8450]
   \<and> \<not> no_upper ucd_fragment (camel_to_snake ucd_fragment [97, 8450])
   \<and> camel_to_snake ucd_fragment (camel_to_snake ucd_fragment [97, 8450]) = [97, 95, 95, 8450]
   \<and> camel_to_snake ucd_fragment (camel_to_snake ucd_fragment [97, 8450])
        \<noteq> camel_to_snake ucd_fragment [97, 8450]"
  by (simp add: camel_to_snake_def no_upper_def ucd_simps)

text \<open>
  C8, amended. On every runtime that treats ASCII as Python does: for every string in
  which the lower-case form of each character consists of characters that are not
  upper-case and that \<open>lower\<close> leaves unchanged, the output of \<open>camel_to_snake\<close>
  contains no upper-case character and \<open>camel_to_snake\<close> applied to its own output
  returns it unchanged. Every ASCII string is such a string.
\<close>

theorem camel_to_snake_idempotent:
  "ascii_casing py \<longrightarrow>
     (is_ascii s \<longrightarrow> lower_settled py s)
     \<and> (lower_settled py s \<longrightarrow>
          no_upper py (camel_to_snake py s)
          \<and> camel_to_snake py (camel_to_snake py s) = camel_to_snake py s)"
proof (intro conjI impI)
  assume a: "ascii_casing py"
  {
    assume "is_ascii s"
    with a show "lower_settled py s"
      by (rule ascii_lower_settled)
  }
  assume s: "lower_settled py s"
  have "\<not> isupper py d \<and> lower py [d] = [d]" if "d \<in> set (camel_to_snake py s)" for d
  proof -
    from that set_camel_to_snake [of py s]
    consider "d = 95" | c where "c \<in> set s" "d \<in> set (lower py [c])"
      by auto
    then show ?thesis
    proof cases
      case 1
      then show ?thesis using ascii_underscore [OF a] by simp
    next
      case 2
      then show ?thesis
        using s by (auto simp: lower_settled_def no_upper_def lower_fixed_def list_all_iff)
    qed
  qed
  then have n: "no_upper py (camel_to_snake py s)" and f: "lower_fixed py (camel_to_snake py s)"
    by (auto simp: no_upper_def lower_fixed_def list_all_iff)
  from n show "no_upper py (camel_to_snake py s)" .
  from n f show "camel_to_snake py (camel_to_snake py s) = camel_to_snake py s"
    by (rule snake_fixed)
qed

theorem camel_to_snake_idempotent_witness:
  "ascii_casing ucd_fragment
   \<and> is_ascii (ustr ''tokenId'')
   \<and> lower_settled ucd_fragment (ustr ''tokenId'')
   \<and> camel_to_snake ucd_fragment (ustr ''tokenId'') = ustr ''token_id''
   \<and> no_upper ucd_fragment (camel_to_snake ucd_fragment (ustr ''tokenId''))
   \<and> camel_to_snake ucd_fragment (camel_to_snake ucd_fragment (ustr ''tokenId''))
        = ustr ''token_id''"
  using camel_to_snake_idempotent [of ucd_fragment "ustr ''tokenId''"] ucd_fragment_ascii
  by (simp add: is_ascii_def camel_to_snake_def ucd_simps)

section \<open>C6: the two worked examples\<close>

text \<open>
  C6. For \<open>A = {"maker": "0xABC", "price": "0.01"}\<close> and
  \<open>B = {"maker": "0xabc", "price": "0.02"}\<close> the comparator gives matched \<open>maker\<close> (the
  values are compared case-insensitively on their string form), mismatched \<open>price\<close> with
  the raw values \<open>0.01\<close> and \<open>0.02\<close>, and nothing unmatched; for \<open>A = {"feeRateBps": "0"}\<close>
  and \<open>B = {"other_field": "0"}\<close> the key \<open>feeRateBps\<close> is unmatched. This holds on every
  runtime that treats ASCII as Python does.
\<close>

theorem comparator_examples:
  assumes a: "ascii_casing py"
  shows "same_fields py
           [(ustr ''maker'', PStr (ustr ''0xABC'')), (ustr ''price'', PStr (ustr ''0.01''))]
           [(ustr ''maker'', PStr (ustr ''0xabc'')), (ustr ''price'', PStr (ustr ''0.02''))]
         = Inr [ustr ''maker'']
    \<and> differences py
           [(ustr ''maker'', PStr (ustr ''0xABC'')), (ustr ''price'', PStr (ustr ''0.01''))]
           [(ustr ''maker'', PStr (ustr ''0xabc'')), (ustr ''price'', PStr (ustr ''0.02''))]
         = Inr [(ustr ''price'', ustr ''price'', PStr (ustr ''0.01''), PStr (ustr ''0.02''))]
    \<and> unmatched py
           [(ustr ''maker'', PStr (ustr ''0xABC'')), (ustr ''price'', PStr (ustr ''0.01''))]
           [(ustr ''maker'', PStr (ustr ''0xabc'')), (ustr ''price'', PStr (ustr ''0.02''))]
         = []
    \<and> unmatched py
           [(ustr ''feeRateBps'', PStr (ustr ''0''))]
           [(ustr ''other_field'', PStr (ustr ''0''))]
         = [ustr ''feeRateBps'']"
proof -
  have k1: "camel_to_snake py (ustr ''maker'') = ustr ''maker''"
    by (simp add: ascii_eval ascii_isupper_py [OF a] ascii_lower_py [OF a])
  have k2: "camel_to_snake py (ustr ''price'') = ustr ''price''"
    by (simp add: ascii_eval ascii_isupper_py [OF a] ascii_lower_py [OF a])
  have k3: "camel_to_snake py (ustr ''feeRateBps'') = ustr ''fee_rate_bps''"
    by (simp add: ascii_eval ascii_isupper_py [OF a] ascii_lower_py [OF a])
  have v: "lower py (ustr ''0xABC'') = ustr ''0xabc''" "lower py (ustr ''0xabc'') = ustr ''0xabc''"
    "lower py (ustr ''0.01'') = ustr ''0.01''" "lower py (ustr ''0.02'') = ustr ''0.02''"
    by (simp_all add: ustr_def is_ascii_def ascii_isupper_def ascii_lower_def
        ascii_lower_py [OF a])
  have ne: "ustr ''0.01'' \<noteq> ustr ''0.02''" "ustr ''maker'' \<noteq> ustr ''price''"
    "ustr ''fee_rate_bps'' \<noteq> ustr ''other_field''"
    by (simp_all add: ustr_def)
  have s: "sort [ustr ''maker'', ustr ''price''] = [ustr ''maker'', ustr ''price'']"
    by (simp add: ustr_def)
  show ?thesis
    by (simp add: dict_eval k1 k2 k3 v ne ne [symmetric] s)
qed

theorem comparator_examples_witness:
  "ascii_casing ucd_fragment
   \<and> same_fields ucd_fragment
        [(ustr ''maker'', PStr (ustr ''0xABC'')), (ustr ''price'', PStr (ustr ''0.01''))]
        [(ustr ''maker'', PStr (ustr ''0xabc'')), (ustr ''price'', PStr (ustr ''0.02''))]
      = Inr [ustr ''maker'']
   \<and> differences ucd_fragment
        [(ustr ''maker'', PStr (ustr ''0xABC'')), (ustr ''price'', PStr (ustr ''0.01''))]
        [(ustr ''maker'', PStr (ustr ''0xabc'')), (ustr ''price'', PStr (ustr ''0.02''))]
      = Inr [(ustr ''price'', ustr ''price'', PStr (ustr ''0.01''), PStr (ustr ''0.02''))]
   \<and> unmatched ucd_fragment
        [(ustr ''feeRateBps'', PStr (ustr ''0''))]
        [(ustr ''other_field'', PStr (ustr ''0''))]
      = [ustr ''feeRateBps'']"
  using comparator_examples [OF ucd_fragment_ascii] ucd_fragment_ascii
  by simp

section \<open>C7: no error outcome\<close>

text \<open>
  C7 as stated: for every pair of mappings whose values are strings or integers the
  comparison has no error outcome. Under the default limit of 4300 digits the integer
  \<open>10 ^ 4300\<close> has 4301 digits: with \<open>A = {"salt": 10 ** 4300}\<close> and \<open>B = {"salt": 1}\<close>
  both loops end in \<open>ValueError\<close>, raised by \<open>str(first[first_key])\<close>.
\<close>

theorem digit_limit_raises:
  "differences_limited ucd_fragment 4300
      [(ustr ''salt'', PInt (10 ^ 4300))] [(ustr ''salt'', PInt 1)] = Inl ValueError
   \<and> same_fields_limited ucd_fragment 4300
      [(ustr ''salt'', PInt (10 ^ 4300))] [(ustr ''salt'', PInt 1)] = Inl ValueError"
proof -
  have k: "camel_to_snake ucd_fragment (ustr ''salt'') = ustr ''salt''"
    by (simp add: camel_to_snake_def ucd_simps)
  have c: "contains (ustr ''salt'') [(ustr ''salt'', PInt 1)]"
    by (simp add: contains_def keys_def)
  have g: "getitem [(ustr ''salt'', PInt (10 ^ 4300))] (ustr ''salt'') = Inr (PInt (10 ^ 4300))"
    unfolding getitem_def by (simp only: map_of.simps fun_upd_same fst_conv snd_conv option.case)
  have ks: "keys [(ustr ''salt'', PInt (10 ^ 4300))] = [ustr ''salt'']"
    unfolding keys_def by (simp only: list.map fst_conv)
  show ?thesis
    unfolding differences_limited_def same_fields_limited_def ks
    by (simp only: differences_limited_loop.simps same_fields_limited_loop.simps Let_def k c
        if_True g sum.case str_limited_default_raises simp_thms)
qed

text \<open>
  C7, amended. Normalization is total and never raises: \<open>camel_to_snake\<close> is defined by
  structural recursion, so it returns for every string, and its loop returns a list with
  one piece per character plus one per inserted underscore. The comparison never raises
  when the integers are within the interpreter's limit on integer string conversion:
  for every pair of mappings whose values are strings or integers of at most
  \<open>max_str_digits\<close> digits (any integers when the limit is off), both comparison loops
  return a result, neither \<open>KeyError\<close> nor \<open>ValueError\<close>, and every key of \<open>A\<close> is in one of
  the three outcome sets, the unmatched set being one of them. The key report, which
  calls no \<open>str\<close>, has a line for every key of \<open>A\<close> whatever the values.
\<close>

theorem no_error_within_digit_limit:
  "(within_limit m A \<and> within_limit m B \<longrightarrow>
      (\<exists>ds ss. differences_limited py m A B = Inr ds \<and> same_fields_limited py m A B = Inr ss
         \<and> (\<forall>k \<in> set (keys A).
               k \<in> set (unmatched py A B) \<or> k \<in> set (mismatched_keys ds) \<or> k \<in> set ss)))
   \<and> within_limit 0 A
   \<and> map (\<lambda>(has_in_second, fk, snake). fk) (key_report py A B) = sort (keys A)
   \<and> length (camel_to_snake_loop py (enumerate 0 s) []) =
         length s + length (filter (\<lambda>(i, c). isupper py c \<and> i > 0) (enumerate 0 s))"
proof (intro conjI impI)
  let ?M = "filter (\<lambda>k. contains (camel_to_snake py k) B \<and> \<not> values_agree py A B k) (keys A)"
  let ?S = "filter (\<lambda>k. contains (camel_to_snake py k) B \<and> values_agree py A B k) (keys A)"
  show "within_limit 0 A"
    by (rule within_limit_off)
  show "map (\<lambda>(has_in_second, fk, snake). fk) (key_report py A B) = sort (keys A)"
    by (simp add: key_report_def key_report_loop_map o_def)
  show "length (camel_to_snake_loop py (enumerate 0 s) []) =
         length s + length (filter (\<lambda>(i, c). isupper py c \<and> i > 0) (enumerate 0 s))"
    by (simp add: camel_to_snake_loop_length)
  assume w: "within_limit m A \<and> within_limit m B"
  then have A: "within_limit m A" and B: "within_limit m B"
    by simp_all
  have d: "differences_limited py m A B = Inr (map (difference_of py A B) ?M)"
    unfolding differences_limited_def differences_limited_loop_eq [OF A B]
    by (simp add: differences_loop_filter)
  have f: "same_fields_limited py m A B = Inr ?S"
    unfolding same_fields_limited_def same_fields_limited_loop_eq [OF A B]
    by (simp add: same_fields_loop_filter)
  have c: "\<forall>k \<in> set (keys A). k \<in> set (unmatched py A B)
          \<or> k \<in> set (mismatched_keys (map (difference_of py A B) ?M)) \<or> k \<in> set ?S"
    unfolding mismatched_keys_difference_of unmatched_filter by auto
  from d f c
  show "\<exists>ds ss. differences_limited py m A B = Inr ds \<and> same_fields_limited py m A B = Inr ss
         \<and> (\<forall>k \<in> set (keys A).
               k \<in> set (unmatched py A B) \<or> k \<in> set (mismatched_keys ds) \<or> k \<in> set ss)"
    by blast
qed

theorem no_error_within_digit_limit_witness:
  "within_limit 4300 [(ustr ''topicId'', PInt (- 5)), (ustr ''nonce'', PStr (ustr ''0''))]
   \<and> within_limit 4300 [(ustr ''topic_id'', PStr (ustr ''-5'')), (ustr ''salt'', PInt 3)]
   \<and> differences_limited ucd_fragment 4300
      [(ustr ''topicId'', PInt (- 5)), (ustr ''nonce'', PStr (ustr ''0''))]
      [(ustr ''topic_id'', PStr (ustr ''-5'')), (ustr ''salt'', PInt 3)]
     = Inr []
   \<and> same_fields_limited ucd_fragment 4300
      [(ustr ''topicId'', PInt (- 5)), (ustr ''nonce'', PStr (ustr ''0''))]
      [(ustr ''topic_id'', PStr (ustr ''-5'')), (ustr ''salt'', PInt 3)]
     = Inr [ustr ''topicId'']
   \<and> unmatched ucd_fragment
      [(ustr ''topicId'', PInt (- 5)), (ustr ''nonce'', PStr (ustr ''0''))]
      [(ustr ''topic_id'', PStr (ustr ''-5'')), (ustr ''salt'', PInt 3)]
     = [ustr ''nonce'']
   \<and> camel_to_snake_loop ucd_fragment (enumerate 0 (ustr ''aBc'')) []
     = [ustr ''a'', ustr ''_'', ustr ''b'', ustr ''c'']"
  using no_error_within_digit_limit [of 4300
      "[(ustr ''topicId'', PInt (- 5)), (ustr ''nonce'', PStr (ustr ''0''))]"
      "[(ustr ''topic_id'', PStr (ustr ''-5'')), (ustr ''salt'', PInt 3)]"
      ucd_fragment "ustr ''aBc''"]
  by (simp add: dict_eval differences_limited_def same_fields_limited_def str_limited_def
      within_limit_def fits_limit_def camel_to_snake_def ucd_simps digits.simps)

section \<open>C9: the normalizer is not injective\<close>

text \<open>
  C9. \<open>camel_to_snake\<close> is not injective: the distinct strings \<open>tokenId\<close> and \<open>token_id\<close>
  both normalize to \<open>token_id\<close>, so two distinct keys of \<open>A\<close> can be classified against
  the same entry of \<open>B\<close>. This holds on every runtime that treats ASCII as Python does.
\<close>

theorem camel_to_snake_not_injective:
  assumes a: "ascii_casing py"
  shows "ustr ''tokenId'' \<noteq> ustr ''token_id''
    \<and> camel_to_snake py (ustr ''tokenId'') = ustr ''token_id''
    \<and> camel_to_snake py (ustr ''token_id'') = ustr ''token_id''
    \<and> \<not> inj (camel_to_snake py)
    \<and> same_fields py [(ustr ''tokenId'', v), (ustr ''token_id'', v)] [(ustr ''token_id'', v)]
         = Inr [ustr ''tokenId'', ustr ''token_id'']"
proof -
  have ne: "ustr ''tokenId'' \<noteq> ustr ''token_id''"
    by (simp add: ustr_def)
  have k1: "camel_to_snake py (ustr ''tokenId'') = ustr ''token_id''"
    by (simp add: ascii_eval ascii_isupper_py [OF a] ascii_lower_py [OF a])
  have k2: "camel_to_snake py (ustr ''token_id'') = ustr ''token_id''"
    by (simp add: ascii_eval ascii_isupper_py [OF a] ascii_lower_py [OF a])
  have ni: "\<not> inj (camel_to_snake py)"
  proof
    assume "inj (camel_to_snake py)"
    then have "ustr ''tokenId'' = ustr ''token_id''"
      by (rule injD) (simp only: k1 k2)
    with ne show False ..
  qed
  have sf: "same_fields py [(ustr ''tokenId'', v), (ustr ''token_id'', v)] [(ustr ''token_id'', v)]
         = Inr [ustr ''tokenId'', ustr ''token_id'']"
    by (simp add: dict_eval k1 k2 ne ne [symmetric])
  from ne k1 k2 ni sf show ?thesis
    by (intro conjI)
qed

theorem camel_to_snake_not_injective_witness:
  "ascii_casing ucd_fragment
   \<and> camel_to_snake ucd_fragment (ustr ''tokenId'') = ustr ''token_id''
   \<and> camel_to_snake ucd_fragment (ustr ''token_id'') = ustr ''token_id''
   \<and> same_fields ucd_fragment
        [(ustr ''tokenId'', PInt 37), (ustr ''token_id'', PInt 37)] [(ustr ''token_id'', PInt 37)]
      = Inr [ustr ''tokenId'', ustr ''token_id'']"
  using camel_to_snake_not_injective [OF ucd_fragment_ascii, of "PInt 37"] ucd_fragment_ascii
  by simp

section \<open>C10: an underscore in front of an upper-case letter is doubled\<close>

text \<open>
  C10. \<open>camel_to_snake\<close> does not collapse underscores that are already there: for every
  input in which an underscore immediately precedes an upper-case letter, the output has
  two underscores at that position, after the normalized prefix. For example \<open>foo_Bar\<close>
  becomes \<open>foo__bar\<close>, which differs from \<open>foo_bar\<close>, the form of \<open>fooBar\<close>; so the
  mixed-convention key \<open>foo_Bar\<close> of \<open>A\<close> is unmatched against the key \<open>foo_bar\<close> of \<open>B\<close>.
  This holds on every runtime that treats ASCII as Python does.
\<close>

theorem underscore_before_upper_doubled:
  "ascii_casing py \<longrightarrow>
     (isupper py c \<longrightarrow>
        camel_to_snake py (p @ 95 # c # q) =
          camel_to_snake py p @ [95, 95] @ lower py [c] @ concat (map (tail_piece py) q))
     \<and> camel_to_snake py (ustr ''foo_Bar'') = ustr ''foo__bar''
     \<and> camel_to_snake py (ustr ''fooBar'') = ustr ''foo_bar''
     \<and> ustr ''foo__bar'' \<noteq> ustr ''foo_bar''
     \<and> unmatched py [(ustr ''foo_Bar'', v)] [(ustr ''foo_bar'', w)] = [ustr ''foo_Bar'']"
proof (intro conjI impI)
  assume a: "ascii_casing py"
  show "camel_to_snake py (ustr ''foo_Bar'') = ustr ''foo__bar''"
    by (simp add: ascii_eval ascii_isupper_py [OF a] ascii_lower_py [OF a])
  show "camel_to_snake py (ustr ''fooBar'') = ustr ''foo_bar''"
    by (simp add: ascii_eval ascii_isupper_py [OF a] ascii_lower_py [OF a])
  show "ustr ''foo__bar'' \<noteq> ustr ''foo_bar''"
    by (simp add: ustr_def)
  show "unmatched py [(ustr ''foo_Bar'', v)] [(ustr ''foo_bar'', w)] = [ustr ''foo_Bar'']"
    by (simp add: unmatched_def key_report_def keys_def ascii_eval
        ascii_isupper_py [OF a] ascii_lower_py [OF a])
  assume u: "isupper py c"
  have 1: "piece py (length p) 95 = [95]"
    using ascii_underscore [OF a] by (simp add: piece_def)
  have 2: "tail_piece py c = 95 # lower py [c]"
    using u by (simp add: tail_piece_def)
  show "camel_to_snake py (p @ 95 # c # q) =
          camel_to_snake py p @ [95, 95] @ lower py [c] @ concat (map (tail_piece py) q)"
    by (simp add: camel_to_snake_append_Cons 1 2)
qed

theorem underscore_before_upper_doubled_witness:
  "ascii_casing ucd_fragment
   \<and> isupper ucd_fragment 66
   \<and> ustr ''foo'' @ 95 # 66 # ustr ''ar'' = ustr ''foo_Bar''
   \<and> camel_to_snake ucd_fragment (ustr ''foo'' @ 95 # 66 # ustr ''ar'') = ustr ''foo__bar''
   \<and> camel_to_snake ucd_fragment (ustr ''foo'') @ [95, 95] @ lower ucd_fragment [66]
        @ concat (map (tail_piece ucd_fragment) (ustr ''ar'')) = ustr ''foo__bar''
   \<and> unmatched ucd_fragment
        [(ustr ''foo_Bar'', PInt 1)] [(ustr ''foo_bar'', PInt 1)] = [ustr ''foo_Bar'']"
  using underscore_before_upper_doubled
      [of ucd_fragment 66 "ustr ''foo''" "ustr ''ar''" "PInt 1" "PInt 1"]
    ucd_fragment_ascii
  by (simp add: camel_to_snake_def tail_piece_def unmatched_def key_report_def keys_def ucd_simps)

end
